theory Spec2Isabelle
  imports Main "HOL-Library.Word" "HOL-Library.Monad_Syntax"
begin

section \<open>The order repository of chi-api over a Redis store\<close>

text \<open>
  The repository (\<^verbatim>\<open>repository/order\<close>, type \<^verbatim>\<open>RedisRepo\<close>) maps each order to a
  primary record \<^verbatim>\<open>order:<id>\<close> holding its JSON rendering, and keeps the set
  \<^verbatim>\<open>orders\<close> of all primary keys. The development has three layers: the entity and
  its JSON codec, the commands of the Redis client the repository calls, and the
  repository's five operations, translated from the Go source line by line.
\<close>

subsection \<open>Decimal and hexadecimal digits\<close>

definition digit_char :: "nat \<Rightarrow> char" where
  "digit_char d = (if d < 10 then char_of (48 + d) else char_of (87 + d))"

definition dec_val :: "char \<Rightarrow> nat option" where
  "dec_val c = (let n = (of_char c :: nat) in
     if 48 \<le> n \<and> n \<le> 57 then Some (n - 48) else None)"

definition hex_val :: "char \<Rightarrow> nat option" where
  "hex_val c = (let n = (of_char c :: nat) in
     if 48 \<le> n \<and> n \<le> 57 then Some (n - 48)
     else if 97 \<le> n \<and> n \<le> 102 then Some (n - 87) else None)"

definition is_digit :: "char \<Rightarrow> bool" where
  "is_digit c = (dec_val c \<noteq> None)"

text \<open>\<^verbatim>\<open>%d\<close> of an unsigned integer: decimal, no sign, no leading zero.\<close>

fun dec_str :: "nat \<Rightarrow> string" where
  "dec_str n = (if n < 10 then [digit_char n]
                else dec_str (n div 10) @ [digit_char (n mod 10)])"

declare dec_str.simps [simp del]

text \<open>A number in exactly \<open>k\<close> digits of base \<open>b\<close>, most significant digit first.\<close>

fun fixed :: "nat \<Rightarrow> nat \<Rightarrow> nat \<Rightarrow> string" where
  "fixed b 0 n = []"
| "fixed b (Suc k) n = digit_char ((n div b ^ k) mod b) # fixed b k n"

fun read_fixed :: "(char \<Rightarrow> nat option) \<Rightarrow> nat \<Rightarrow> nat \<Rightarrow> nat \<Rightarrow> string \<Rightarrow> (nat \<times> string) option" where
  "read_fixed dv b 0 acc s = Some (acc, s)"
| "read_fixed dv b (Suc k) acc [] = None"
| "read_fixed dv b (Suc k) acc (c # cs) =
     (case dv c of None \<Rightarrow> None | Some d \<Rightarrow> read_fixed dv b k (acc * b + d) cs)"

definition digits_val :: "string \<Rightarrow> nat" where
  "digits_val ds = foldl (\<lambda>a c. a * 10 + (case dec_val c of Some d \<Rightarrow> d | None \<Rightarrow> 0)) 0 ds"

text \<open>A JSON number read into an unsigned 64-bit field: digits only, no leading zero,
  and in range.\<close>

definition read_u64 :: "string \<Rightarrow> (64 word \<times> string) option" where
  "read_u64 s = (let ds = takeWhile is_digit s in
     if ds = [] then None
     else if hd ds = CHR ''0'' \<and> length ds \<noteq> 1 then None
     else if digits_val ds < 2 ^ 64 then Some (of_nat (digits_val ds), dropWhile is_digit s)
     else None)"

fun expect :: "string \<Rightarrow> string \<Rightarrow> string option" where
  "expect [] s = Some s"
| "expect (c # cs) [] = None"
| "expect (c # cs) (d # ds) = (if c = d then expect cs ds else None)"

subsection \<open>The entity\<close>

text \<open>
  Modelled from the spec: the package \<^verbatim>\<open>model\<close> (the declarations of \<^verbatim>\<open>Order\<close> and
  \<^verbatim>\<open>LineItem\<close>) is not among the sources. The fields are those of the specification's
  data model and of the literal in \<^verbatim>\<open>handler.Create\<close>: an unsigned 64-bit
  \<^verbatim>\<open>OrderID\<close>, a UUID \<^verbatim>\<open>CustomerID\<close>, the line items (item identifier and quantity)
  and the nullable \<^verbatim>\<open>CreatedAt\<close>, a UTC instant.
\<close>

type_synonym uuid = "128 word"

record Time =
  Year :: nat
  Month :: nat
  Day :: nat
  Hour :: nat
  Minute :: nat
  Second :: nat
  Nanosecond :: nat

record LineItem =
  ItemID :: uuid
  Quantity :: "64 word"

record Order =
  OrderID :: "64 word"
  CustomerID :: uuid
  LineItems :: "LineItem list"
  CreatedAt :: "Time option"

text \<open>The values the Go types can hold: a \<^verbatim>\<open>time.Time\<close> is a calendar instant.\<close>

definition wf_time :: "Time \<Rightarrow> bool" where
  "wf_time t = (1 \<le> Month t \<and> Month t \<le> 12 \<and> 1 \<le> Day t \<and> Day t \<le> 31 \<and>
     Hour t < 24 \<and> Minute t < 60 \<and> Second t < 60 \<and> Nanosecond t < 10 ^ 9)"

definition wf_order :: "Order \<Rightarrow> bool" where
  "wf_order order = (case CreatedAt order of None \<Rightarrow> True | Some t \<Rightarrow> wf_time t)"

text \<open>A valid Order is one that can be serialized: its timestamp, if any, has a
  four-digit year.\<close>

definition valid_order :: "Order \<Rightarrow> bool" where
  "valid_order order = (case CreatedAt order of None \<Rightarrow> True
     | Some t \<Rightarrow> wf_time t \<and> Year t \<le> 9999)"

subsection \<open>The codec\<close>

text \<open>
  Modelled from the spec: \<^verbatim>\<open>Encode\<close> is \<^verbatim>\<open>json.Marshal\<close> and \<^verbatim>\<open>Decode\<close> is
  \<^verbatim>\<open>json.Unmarshal\<close> at the type \<^verbatim>\<open>model.Order\<close>, whose declaration (and field tags)
  is not among the sources. The rendering is the field-tagged structured text of the
  specification: a JSON object with the four fields in declaration order, numbers in
  decimal, identifiers as 8-4-4-4-12 hexadecimal text, the timestamp as an RFC 3339 UTC
  string or \<^verbatim>\<open>null\<close>. Marshalling fails on a year beyond 9999, as the timestamp's
  marshaller does. The decoder reads this rendering and nothing else.
\<close>

datatype json_error = MarshalerError | SyntaxError

definition dq :: char where
  "dq = CHR 0x22"

definition jkey :: "string \<Rightarrow> string" where
  "jkey k = dq # k @ [dq] @ '':''"

definition uuid_str :: "uuid \<Rightarrow> string" where
  "uuid_str u = (let n = unat u in
     fixed 16 8 (n div 16 ^ 24) @ ''-'' @ fixed 16 4 (n div 16 ^ 20) @ ''-'' @
     fixed 16 4 (n div 16 ^ 16) @ ''-'' @ fixed 16 4 (n div 16 ^ 12) @ ''-'' @
     fixed 16 12 n)"

definition read_uuid :: "string \<Rightarrow> (uuid \<times> string) option" where
  "read_uuid s = do {
  (a1, r1) \<leftarrow> read_fixed hex_val 16 8 0 s;
  r1' \<leftarrow> expect ''-'' r1;
  (a2, r2) \<leftarrow> read_fixed hex_val 16 4 a1 r1';
  r2' \<leftarrow> expect ''-'' r2;
  (a3, r3) \<leftarrow> read_fixed hex_val 16 4 a2 r2';
  r3' \<leftarrow> expect ''-'' r3;
  (a4, r4) \<leftarrow> read_fixed hex_val 16 4 a3 r3';
  r4' \<leftarrow> expect ''-'' r4;
  (a5, r5) \<leftarrow> read_fixed hex_val 16 12 a4 r4';
  Some (of_nat a5, r5) }"

text \<open>The fraction of a second: nine digits without their trailing zeros, nothing
  at all when it is zero.\<close>

definition strip_zeros :: "string \<Rightarrow> string" where
  "strip_zeros ds = rev (dropWhile (\<lambda>c. c = CHR ''0'') (rev ds))"

definition frac_str :: "nat \<Rightarrow> string" where
  "frac_str ns = (if ns = 0 then [] else ''.'' @ strip_zeros (fixed 10 9 ns))"

definition read_frac :: "string \<Rightarrow> (nat \<times> string) option" where
  "read_frac s = (case s of
       c # r \<Rightarrow> (if c = CHR ''.'' then
           (let ds = takeWhile is_digit r in
            if ds = [] \<or> 9 < length ds \<or> last ds = CHR ''0'' then None
            else (case read_fixed dec_val 10 9 0 (ds @ replicate (9 - length ds) (CHR ''0'')) of
                    None \<Rightarrow> None
                  | Some (ns, _) \<Rightarrow> Some (ns, dropWhile is_digit r)))
         else Some (0, s))
     | [] \<Rightarrow> Some (0, s))"

definition time_str :: "Time \<Rightarrow> string" where
  "time_str t = fixed 10 4 (Year t) @ ''-'' @ fixed 10 2 (Month t) @ ''-'' @
     fixed 10 2 (Day t) @ ''T'' @ fixed 10 2 (Hour t) @ '':'' @ fixed 10 2 (Minute t) @
     '':'' @ fixed 10 2 (Second t) @ frac_str (Nanosecond t) @ ''Z''"

definition read_time :: "string \<Rightarrow> (Time \<times> string) option" where
  "read_time s = do {
  (y, r1) \<leftarrow> read_fixed dec_val 10 4 0 s;
  r1' \<leftarrow> expect ''-'' r1;
  (mo, r2) \<leftarrow> read_fixed dec_val 10 2 0 r1';
  r2' \<leftarrow> expect ''-'' r2;
  (d, r3) \<leftarrow> read_fixed dec_val 10 2 0 r2';
  r3' \<leftarrow> expect ''T'' r3;
  (h, r4) \<leftarrow> read_fixed dec_val 10 2 0 r3';
  r4' \<leftarrow> expect '':'' r4;
  (mi, r5) \<leftarrow> read_fixed dec_val 10 2 0 r4';
  r5' \<leftarrow> expect '':'' r5;
  (sec, r6) \<leftarrow> read_fixed dec_val 10 2 0 r5';
  (ns, r7) \<leftarrow> read_frac r6;
  r8 \<leftarrow> expect ''Z'' r7;
  (let t = \<lparr>Year = y, Month = mo, Day = d, Hour = h, Minute = mi, Second = sec,
            Nanosecond = ns\<rparr>
   in if wf_time t then Some (t, r8) else None) }"

definition item_str :: "LineItem \<Rightarrow> string" where
  "item_str it = ''{'' @ jkey ''item_id'' @ [dq] @ uuid_str (ItemID it) @ [dq] @ '','' @
     jkey ''quantity'' @ dec_str (unat (Quantity it)) @ ''}''"

definition read_item :: "string \<Rightarrow> (LineItem \<times> string) option" where
  "read_item s = do {
  r1 \<leftarrow> expect (''{'' @ jkey ''item_id'' @ [dq]) s;
  (u, r2) \<leftarrow> read_uuid r1;
  r3 \<leftarrow> expect ([dq] @ '','' @ jkey ''quantity'') r2;
  (q, r4) \<leftarrow> read_u64 r3;
  r5 \<leftarrow> expect ''}'' r4;
  Some (\<lparr>ItemID = u, Quantity = q\<rparr>, r5) }"

fun items_body :: "LineItem list \<Rightarrow> string" where
  "items_body [] = []"
| "items_body [it] = item_str it"
| "items_body (it # its) = item_str it @ '','' @ items_body its"

definition items_str :: "LineItem list \<Rightarrow> string" where
  "items_str its = ''['' @ items_body its @ '']''"

text \<open>The items after the opening bracket, up to and including the closing one. The
  first argument bounds the number of items; the caller passes the length of the text.\<close>

fun read_items_body :: "nat \<Rightarrow> string \<Rightarrow> (LineItem list \<times> string) option" where
  "read_items_body 0 s = None"
| "read_items_body (Suc n) s = do {
  (it, r) \<leftarrow> read_item s;
  (case r of [] \<Rightarrow> None
   | c # r' \<Rightarrow>
       if c = CHR '']'' then Some ([it], r')
       else if c = CHR '','' then do {
         (its, r'') \<leftarrow> read_items_body n r';
         Some (it # its, r'') }
       else None) }"

definition read_items :: "string \<Rightarrow> (LineItem list \<times> string) option" where
  "read_items s = do {
  r \<leftarrow> expect ''['' s;
  (case expect '']'' r of Some r' \<Rightarrow> Some ([], r')
   | None \<Rightarrow> read_items_body (length r) r) }"

definition created_str :: "Time option \<Rightarrow> string" where
  "created_str ct = (case ct of None \<Rightarrow> ''null'' | Some t \<Rightarrow> [dq] @ time_str t @ [dq])"

definition read_created :: "string \<Rightarrow> (Time option \<times> string) option" where
  "read_created s = (case expect ''null'' s of Some r \<Rightarrow> Some (None, r)
     | None \<Rightarrow> do {
  r1 \<leftarrow> expect [dq] s;
  (t, r2) \<leftarrow> read_time r1;
  r3 \<leftarrow> expect [dq] r2;
  Some (Some t, r3) })"

definition order_str :: "Order \<Rightarrow> string" where
  "order_str order = ''{'' @ jkey ''order_id'' @ dec_str (unat (OrderID order)) @ '','' @
     jkey ''customer_id'' @ [dq] @ uuid_str (CustomerID order) @ [dq] @ '','' @
     jkey ''line_items'' @ items_str (LineItems order) @ '','' @
     jkey ''created_at'' @ created_str (CreatedAt order) @ ''}''"

definition json_Marshal :: "Order \<Rightarrow> json_error + string" where
  "json_Marshal order = (case CreatedAt order of
       None \<Rightarrow> Inr (order_str order)
     | Some t \<Rightarrow> if Year t \<le> 9999 then Inr (order_str order) else Inl MarshalerError)"

definition read_order :: "string \<Rightarrow> (Order \<times> string) option" where
  "read_order s = do {
  r1 \<leftarrow> expect (''{'' @ jkey ''order_id'') s;
  (oid, r2) \<leftarrow> read_u64 r1;
  r3 \<leftarrow> expect ('','' @ jkey ''customer_id'' @ [dq]) r2;
  (cid, r4) \<leftarrow> read_uuid r3;
  r5 \<leftarrow> expect ([dq] @ '','' @ jkey ''line_items'') r4;
  (its, r6) \<leftarrow> read_items r5;
  r7 \<leftarrow> expect ('','' @ jkey ''created_at'') r6;
  (ct, r8) \<leftarrow> read_created r7;
  r9 \<leftarrow> expect ''}'' r8;
  Some (\<lparr>OrderID = oid, CustomerID = cid, LineItems = its, CreatedAt = ct\<rparr>, r9) }"

definition json_Unmarshal :: "string \<Rightarrow> json_error + Order" where
  "json_Unmarshal s = (case read_order s of
       Some (order, []) \<Rightarrow> Inr order
     | _ \<Rightarrow> Inl SyntaxError)"

subsection \<open>The Redis server and the go-redis client\<close>

text \<open>
  The store is not part of the repository; these definitions state what the commands the
  repository issues do, as Redis and go-redis (v9) document them. A database maps a key
  to a string or to a set. A set is kept as the table of slots the server scans: a slot
  holds a member or is free, \<^verbatim>\<open>SADD\<close> fills the first free slot (or grows the table),
  \<^verbatim>\<open>SREM\<close> frees a slot, and a key whose set has become empty is removed. \<^verbatim>\<open>SSCAN\<close>
  with cursor \<open>c\<close> and count \<open>n\<close> looks at the \<open>n\<close> slots from \<open>c\<close> on and returns the
  members found there and the next cursor, 0 once the table is exhausted; so a step can
  return no member and a non-zero cursor, as Redis documents for \<^verbatim>\<open>SCAN\<close>.
\<close>

datatype rval = RString string | RSet "string option list"

type_synonym redis = "string \<Rightarrow> rval option"

text \<open>What \<^verbatim>\<open>Cmd.Err()\<close> can be: the nil reply \<^verbatim>\<open>redis.Nil\<close>, an error reply of the
  server, or a failure of the connection (or a cancelled context).\<close>

datatype redis_error = Nil | WRONGTYPE | WrongArgs | ConnError

text \<open>
  The first argument of every command says whether the round trip fails; a failed round
  trip does not reach the server. \<^verbatim>\<open>GET\<close> answers nil for an absent key, and only
  \<^verbatim>\<open>GET\<close> does: \<^verbatim>\<open>SETNX\<close> and \<^verbatim>\<open>DEL\<close> answer an integer, and the nil reply of
  \<^verbatim>\<open>SET ... XX\<close> is turned into \<^verbatim>\<open>false\<close> with no error by \<^verbatim>\<open>BoolCmd\<close>.
\<close>

definition Get :: "bool \<Rightarrow> redis \<Rightarrow> string \<Rightarrow> (redis_error + string) \<times> redis" where
  "Get down s k = (if down then (Inl ConnError, s) else
     (case s k of None \<Rightarrow> (Inl Nil, s)
      | Some (RString v) \<Rightarrow> (Inr v, s)
      | Some (RSet ms) \<Rightarrow> (Inl WRONGTYPE, s)))"

definition SetNX :: "bool \<Rightarrow> redis \<Rightarrow> string \<Rightarrow> string \<Rightarrow> (redis_error + bool) \<times> redis" where
  "SetNX down s k v = (if down then (Inl ConnError, s) else
     (case s k of None \<Rightarrow> (Inr True, s(k \<mapsto> RString v))
      | Some x \<Rightarrow> (Inr False, s)))"

definition SetXX :: "bool \<Rightarrow> redis \<Rightarrow> string \<Rightarrow> string \<Rightarrow> (redis_error + bool) \<times> redis" where
  "SetXX down s k v = (if down then (Inl ConnError, s) else
     (case s k of None \<Rightarrow> (Inr False, s)
      | Some x \<Rightarrow> (Inr True, s(k \<mapsto> RString v))))"

definition Del :: "bool \<Rightarrow> redis \<Rightarrow> string \<Rightarrow> (redis_error + nat) \<times> redis" where
  "Del down s k = (if down then (Inl ConnError, s) else
     (case s k of None \<Rightarrow> (Inr 0, s)
      | Some x \<Rightarrow> (Inr 1, s(k := None))))"

fun slot_insert :: "string \<Rightarrow> string option list \<Rightarrow> string option list" where
  "slot_insert m [] = [Some m]"
| "slot_insert m (None # xs) = Some m # xs"
| "slot_insert m (Some x # xs) = Some x # slot_insert m xs"

definition slot_remove :: "string \<Rightarrow> string option list \<Rightarrow> string option list" where
  "slot_remove m xs = map (\<lambda>x. if x = Some m then None else x) xs"

definition members :: "string option list \<Rightarrow> string list" where
  "members xs = concat (map (\<lambda>x. case x of None \<Rightarrow> [] | Some m \<Rightarrow> [m]) xs)"

definition SAdd :: "bool \<Rightarrow> redis \<Rightarrow> string \<Rightarrow> string \<Rightarrow> (redis_error + nat) \<times> redis" where
  "SAdd down s k m = (if down then (Inl ConnError, s) else
     (case s k of None \<Rightarrow> (Inr 1, s(k \<mapsto> RSet [Some m]))
      | Some (RString v) \<Rightarrow> (Inl WRONGTYPE, s)
      | Some (RSet xs) \<Rightarrow>
          if m \<in> set (members xs) then (Inr 0, s)
          else (Inr 1, s(k \<mapsto> RSet (slot_insert m xs)))))"

definition SRem :: "bool \<Rightarrow> redis \<Rightarrow> string \<Rightarrow> string \<Rightarrow> (redis_error + nat) \<times> redis" where
  "SRem down s k m = (if down then (Inl ConnError, s) else
     (case s k of None \<Rightarrow> (Inr 0, s)
      | Some (RString v) \<Rightarrow> (Inl WRONGTYPE, s)
      | Some (RSet xs) \<Rightarrow>
          if m \<in> set (members xs) then
            (if members (slot_remove m xs) = [] then (Inr 1, s(k := None))
             else (Inr 1, s(k \<mapsto> RSet (slot_remove m xs))))
          else (Inr 0, s)))"

text \<open>go-redis sends \<^verbatim>\<open>COUNT\<close> only when the count, an \<^verbatim>\<open>int64\<close>, is positive; the
  server's default is 10. The pattern \<^verbatim>\<open>*\<close> matches every member.\<close>

definition scan_count :: "64 word \<Rightarrow> nat" where
  "scan_count n = (if 0 < sint n then unat n else 10)"

definition SScan :: "bool \<Rightarrow> redis \<Rightarrow> string \<Rightarrow> 64 word \<Rightarrow> 64 word \<Rightarrow>
    (redis_error + string list \<times> 64 word) \<times> redis" where
  "SScan down s k cursor count = (if down then (Inl ConnError, s) else
     (case s k of None \<Rightarrow> (Inr ([], 0), s)
      | Some (RString v) \<Rightarrow> (Inl WRONGTYPE, s)
      | Some (RSet xs) \<Rightarrow>
          (let c = unat cursor; n = scan_count count
           in (Inr (members (take n (drop c xs)),
                    if c + n < length xs then of_nat (c + n) else 0), s))))"

text \<open>\<^verbatim>\<open>MGET\<close> answers nil for a key that is absent or holds no string, and refuses an
  empty list of keys.\<close>

definition MGet :: "bool \<Rightarrow> redis \<Rightarrow> string list \<Rightarrow> (redis_error + string option list) \<times> redis" where
  "MGet down s ks = (if down then (Inl ConnError, s)
     else if ks = [] then (Inl WrongArgs, s)
     else (Inr (map (\<lambda>k. case s k of Some (RString v) \<Rightarrow> Some v | _ \<Rightarrow> None) ks), s))"

text \<open>
  A transaction pipeline is the queue of commands issued on it. \<^verbatim>\<open>Exec\<close> sends the
  queue between \<^verbatim>\<open>MULTI\<close> and \<^verbatim>\<open>EXEC\<close>, and the server applies it as one step; on an
  empty queue it returns at once, without a round trip. \<^verbatim>\<open>Discard\<close> empties the queue,
  which is local to the call that made the pipeline.
\<close>

type_synonym pipeline = "(redis \<Rightarrow> redis) list"

definition TxPipeline :: pipeline where
  "TxPipeline = []"

definition Discard :: "pipeline \<Rightarrow> pipeline" where
  "Discard txn = []"

definition Exec :: "bool \<Rightarrow> redis \<Rightarrow> pipeline \<Rightarrow> redis_error option \<times> redis" where
  "Exec down s txn = (case txn of [] \<Rightarrow> (None, s)
     | c # cs \<Rightarrow> if down then (Some ConnError, s) else (None, fold (\<lambda>f. f) txn s))"

subsection \<open>The repository\<close>

text \<open>
  An error is the sentinel \<^verbatim>\<open>ErrNotExits\<close> or \<^verbatim>\<open>fmt.Errorf\<close> of a message around a
  cause. Every operation takes the state of the network during the call (\<open>net i\<close>: the
  \<open>i\<close>-th round trip of the call fails) and the database, and returns its Go result and
  the database it leaves.
\<close>

datatype cause = RedisErr redis_error | JsonErr json_error

datatype error = ErrNotExits | Errorf string cause

type_synonym net = "nat \<Rightarrow> bool"

definition OrderIdKey :: "64 word \<Rightarrow> string" where
  "OrderIdKey oid = ''order:'' @ dec_str (unat oid)"

definition Insert :: "net \<Rightarrow> redis \<Rightarrow> Order \<Rightarrow> error option \<times> redis" where
  "Insert net s order =
     (case json_Marshal order of
        Inl err \<Rightarrow> (Some (Errorf ''failed to decode order'' (JsonErr err)), s)
      | Inr data \<Rightarrow>
          (let key = OrderIdKey (OrderID order);
               txn = TxPipeline;
               (res, s1) = SetNX (net 0) s key data
           in case res of
                Inl err \<Rightarrow>
                  (let discarded = Discard txn
                   in (Some (Errorf ''failed to set data in redis'' (RedisErr err)), s1))
              | Inr ok \<Rightarrow>
                  (let (res2, s2) = SAdd (net 1) s1 ''orders'' key
                   in case res2 of
                        Inl err \<Rightarrow>
                          (let discarded = Discard txn
                           in (Some (Errorf ''failed to add redis orderid set'' (RedisErr err)),
                               s2))
                      | Inr added \<Rightarrow>
                          (let (res3, s3) = Exec (net 2) s2 txn
                           in case res3 of
                                Some err \<Rightarrow>
                                  (Some (Errorf ''error executing redis transaction in insert order ''
                                     (RedisErr err)), s3)
                              | None \<Rightarrow> (None, s3)))))"

definition FindByID :: "net \<Rightarrow> redis \<Rightarrow> 64 word \<Rightarrow> (error + Order) \<times> redis" where
  "FindByID net s oid =
     (let key = OrderIdKey oid;
          (res, s1) = Get (net 0) s key
      in case res of
           Inl err \<Rightarrow>
             if err = Nil then (Inl ErrNotExits, s1)
             else (Inl (Errorf ''redis get error'' (RedisErr err)), s1)
         | Inr v \<Rightarrow>
             (case json_Unmarshal v of
                Inl err \<Rightarrow> (Inl (Errorf ''failed to decode order json'' (JsonErr err)), s1)
              | Inr order \<Rightarrow> (Inr order, s1)))"

definition DeleteByID :: "net \<Rightarrow> redis \<Rightarrow> 64 word \<Rightarrow> error option \<times> redis" where
  "DeleteByID net s oid =
     (let key = OrderIdKey oid;
          txn = TxPipeline;
          (res, s1) = Del (net 0) s key
      in case res of
           Inl err \<Rightarrow>
             if err = Nil then (let discarded = Discard txn in (Some ErrNotExits, s1))
             else (let discarded = Discard txn
                   in (Some (Errorf ''error delete order from redis'' (RedisErr err)), s1))
         | Inr n \<Rightarrow>
             (let (res2, s2) = SRem (net 1) s1 ''orders'' key
              in case res2 of
                   Inl err \<Rightarrow>
                     (Some (Errorf ''error deleting orderid from set'' (RedisErr err)), s2)
                 | Inr removed \<Rightarrow>
                     (let (res3, s3) = Exec (net 2) s2 txn
                      in case res3 of
                           Some err \<Rightarrow>
                             (Some (Errorf ''error executing redis transaction in delete order ''
                                (RedisErr err)), s3)
                         | None \<Rightarrow> (None, s3))))"

definition Update :: "net \<Rightarrow> redis \<Rightarrow> Order \<Rightarrow> error option \<times> redis" where
  "Update net s order =
     (case json_Marshal order of
        Inl err \<Rightarrow> (Some (Errorf ''error to encode order '' (JsonErr err)), s)
      | Inr data \<Rightarrow>
          (let key = OrderIdKey (OrderID order);
               (res, s1) = SetXX (net 0) s key data
           in case res of
                Inl err \<Rightarrow>
                  if err = Nil then (Some ErrNotExits, s1)
                  else (Some (Errorf ''error updating order in redis'' (RedisErr err)), s1)
              | Inr ok \<Rightarrow> (None, s1)))"

record FindAllPage =
  Size :: "64 word"
  Offset :: "64 word"

record FindResults =
  Orders :: "Order list"
  Cursor :: "64 word"

text \<open>A Go call returns or panics; \<^verbatim>\<open>x.(string)\<close> panics on nil.\<close>

datatype 'a outcome = Returns 'a | Panics

text \<open>The loop of \<^verbatim>\<open>FindAll\<close> over the values of the multi-get, in order: the first
  value that is nil or does not decode ends the call.\<close>

fun decode_all :: "string option list \<Rightarrow> (error + Order list) outcome" where
  "decode_all [] = Returns (Inr [])"
| "decode_all (x # xs) =
     (case x of
        None \<Rightarrow> Panics
      | Some v \<Rightarrow>
          (case json_Unmarshal v of
             Inl err \<Rightarrow> Returns (Inl (Errorf ''error decoding order'' (JsonErr err)))
           | Inr order \<Rightarrow>
               (case decode_all xs of
                  Panics \<Rightarrow> Panics
                | Returns (Inl err) \<Rightarrow> Returns (Inl err)
                | Returns (Inr orders) \<Rightarrow> Returns (Inr (order # orders)))))"

definition FindAll :: "net \<Rightarrow> redis \<Rightarrow> FindAllPage \<Rightarrow> (error + FindResults) outcome \<times> redis" where
  "FindAll net s page =
     (let (res, s1) = SScan (net 0) s ''orders'' (Offset page) (Size page)
      in case res of
           Inl err \<Rightarrow> (Returns (Inl (Errorf ''faiied to get order ids'' (RedisErr err))), s1)
         | Inr (keys, cursor) \<Rightarrow>
             if length keys = 0 then (Returns (Inr \<lparr>Orders = [], Cursor = 0\<rparr>), s1)
             else
               (let (res2, s2) = MGet (net 1) s1 keys
                in case res2 of
                     Inl err \<Rightarrow> (Returns (Inl (Errorf ''error fetching Orders'' (RedisErr err))), s2)
                   | Inr xs \<Rightarrow>
                       (case decode_all xs of
                          Panics \<Rightarrow> (Panics, s2)
                        | Returns (Inl err) \<Rightarrow> (Returns (Inl err), s2)
                        | Returns (Inr orders) \<Rightarrow>
                            (Returns (Inr \<lparr>Orders = orders, Cursor = cursor\<rparr>), s2))))"

subsection \<open>The index, invariant I1 and sequential histories\<close>

definition index :: "redis \<Rightarrow> string list" where
  "index s = (case s ''orders'' of Some (RSet xs) \<Rightarrow> members xs | _ \<Rightarrow> [])"

definition valid_record :: "redis \<Rightarrow> string \<Rightarrow> bool" where
  "valid_record s k = (case s k of
       Some (RString v) \<Rightarrow> (case json_Unmarshal v of Inr order \<Rightarrow> True | Inl err \<Rightarrow> False)
     | _ \<Rightarrow> False)"

text \<open>I1: every key in the set \<^verbatim>\<open>orders\<close> has a primary record that decodes.\<close>

definition I1 :: "redis \<Rightarrow> bool" where
  "I1 s = (\<forall>k \<in> set (index s). valid_record s k)"

datatype op = OpInsert Order | OpUpdate Order | OpDelete "64 word"

fun apply_op :: "net \<Rightarrow> redis \<Rightarrow> op \<Rightarrow> error option \<times> redis" where
  "apply_op net s (OpInsert order) = Insert net s order"
| "apply_op net s (OpUpdate order) = Update net s order"
| "apply_op net s (OpDelete oid) = DeleteByID net s oid"

fun op_wf :: "op \<Rightarrow> bool" where
  "op_wf (OpInsert order) = wf_order order"
| "op_wf (OpUpdate order) = wf_order order"
| "op_wf (OpDelete oid) = True"

text \<open>A history of operations run one after the other, each to its end and each with
  its own network; the result is the database after the last one if every one of them
  succeeded.\<close>

fun run :: "(net \<times> op) list \<Rightarrow> redis \<Rightarrow> redis option" where
  "run [] s = Some s"
| "run ((net, p) # rest) s =
     (case apply_op net s p of
        (None, s') \<Rightarrow> run rest s'
      | (Some err, s') \<Rightarrow> None)"

text \<open>
  The caller's scan, as the specification words it: call \<^verbatim>\<open>FindAll\<close> from offset 0,
  pass each returned cursor to the next call, stop at cursor 0. The first argument
  bounds the number of calls; \<open>None\<close> says the bound was reached.
\<close>

fun scan_all :: "nat \<Rightarrow> net \<Rightarrow> redis \<Rightarrow> 64 word \<Rightarrow> 64 word \<Rightarrow> (error + Order list) outcome option" where
  "scan_all 0 net s sz offset = None"
| "scan_all (Suc fuel) net s sz offset =
     (case fst (FindAll net s \<lparr>Size = sz, Offset = offset\<rparr>) of
        Panics \<Rightarrow> Some Panics
      | Returns (Inl err) \<Rightarrow> Some (Returns (Inl err))
      | Returns (Inr res) \<Rightarrow>
          if Cursor res = 0 then Some (Returns (Inr (Orders res)))
          else (case scan_all fuel net s sz (Cursor res) of
                  Some (Returns (Inr orders)) \<Rightarrow> Some (Returns (Inr (Orders res @ orders)))
                | r \<Rightarrow> r))"

text \<open>The histories the invariant is stated for: every order handed to the repository is
  a value of its Go type.\<close>

definition ops_wf :: "(net \<times> op) list \<Rightarrow> bool" where
  "ops_wf ops = list_all (\<lambda>(net, p). op_wf p) ops"

text \<open>The invariant that the successful operations keep, of which I1 is a part: every
  key other than \<^verbatim>\<open>orders\<close> holds a record that decodes, \<^verbatim>\<open>orders\<close> holds no string,
  and every member of the index is a key with a record.\<close>

definition store_ok :: "redis \<Rightarrow> bool" where
  "store_ok s = ((\<forall>k. k \<noteq> ''orders'' \<longrightarrow> s k \<noteq> None \<longrightarrow> valid_record s k) \<and>
     (\<forall>v. s ''orders'' \<noteq> Some (RString v)) \<and>
     (\<forall>k \<in> set (index s). k \<noteq> ''orders'' \<and> s k \<noteq> None))"

subsection \<open>Concrete networks, orders and databases\<close>

definition net_up :: net where
  "net_up i = False"

definition net_sadd_down :: net where
  "net_sadd_down i = (i = 1)"

definition plain_order :: "64 word \<Rightarrow> Order" where
  "plain_order oid = \<lparr>OrderID = oid, CustomerID = 0, LineItems = [], CreatedAt = None\<rparr>"

definition empty_db :: redis where
  "empty_db = Map.empty"

definition stale_db :: redis where
  "stale_db = Map.empty(''order:1'' \<mapsto> RString ''stale'')"

definition dangling_db :: redis where
  "dangling_db = Map.empty(''orders'' \<mapsto> RSet [Some ''order:1''])"

definition sparse_db :: redis where
  "sparse_db = Map.empty(''order:3'' \<mapsto> RString (order_str (plain_order 3)),
     ''orders'' \<mapsto> RSet [None, None, Some ''order:3''])"

definition one_db :: redis where
  "one_db = Map.empty(''order:1'' \<mapsto> RString (order_str (plain_order 1)),
     ''orders'' \<mapsto> RSet [Some ''order:1''])"

definition history1 :: "(net \<times> op) list" where
  "history1 = [(net_up, OpInsert (plain_order 1)), (net_up, OpInsert (plain_order 2)),
     (net_up, OpInsert (plain_order 3)), (net_up, OpUpdate (plain_order 3)),
     (net_up, OpDelete 1), (net_up, OpDelete 2)]"

definition sample_order :: Order where
  "sample_order = \<lparr>OrderID = 42, CustomerID = 0x0123456789abcdef0123456789abcdef,
     LineItems = [\<lparr>ItemID = 10, Quantity = 2\<rparr>, \<lparr>ItemID = 11, Quantity = 1\<rparr>],
     CreatedAt = Some \<lparr>Year = 2023, Month = 6, Day = 30, Hour = 23, Minute = 59,
       Second = 7, Nanosecond = 120000000\<rparr>\<rparr>"

section \<open>Properties\<close>

subsection \<open>The codec reads what it writes\<close>

lemma dec_val_digit_char: "d < 10 \<Longrightarrow> dec_val (digit_char d) = Some d"
  by (simp add: dec_val_def digit_char_def)

lemma hex_val_digit_char: "d < 16 \<Longrightarrow> hex_val (digit_char d) = Some d"
  by (auto simp: hex_val_def digit_char_def)

lemma is_digit_digit_char: "d < 10 \<Longrightarrow> is_digit (digit_char d)"
  by (simp add: is_digit_def dec_val_digit_char)

lemma digit_char_0: "digit_char 0 = CHR ''0''"
  by code_simp

lemma dec_val_zero: "dec_val (CHR ''0'') = Some 0"
  by (simp add: dec_val_def)

lemma digit_char_eq_zero: "d < 10 \<Longrightarrow> digit_char d = CHR ''0'' \<longleftrightarrow> d = 0"
  using dec_val_digit_char [of d] dec_val_zero digit_char_0 by auto

lemma read_fixed_fixed:
  assumes dv: "\<And>d. d < b \<Longrightarrow> dv (digit_char d) = Some d" and b: "0 < b"
  shows "read_fixed dv b k acc (fixed b k n @ rest) = Some (acc * b ^ k + n mod b ^ k, rest)"
proof (induction k arbitrary: acc)
  case 0
  show ?case by simp
next
  case (Suc k)
  have lt: "(n div b ^ k) mod b < b" using b by simp
  have "n mod (b ^ k * b) = b ^ k * ((n div b ^ k) mod b) + n mod b ^ k"
    by (rule mod_mult2_eq)
  then have e: "(acc * b + (n div b ^ k) mod b) * b ^ k + n mod b ^ k = acc * b ^ Suc k + n mod b ^ Suc k"
    by (simp add: algebra_simps)
  show ?case
    using Suc.IH [of "acc * b + (n div b ^ k) mod b"] e
    by (simp add: dv [OF lt])
qed

lemma read_fixed_dec:
  "read_fixed dec_val 10 k acc (fixed 10 k n @ rest) = Some (acc * 10 ^ k + n mod 10 ^ k, rest)"
  by (rule read_fixed_fixed) (simp_all add: dec_val_digit_char)

lemma read_fixed_hex:
  "read_fixed hex_val 16 k acc (fixed 16 k n @ rest) = Some (acc * 16 ^ k + n mod 16 ^ k, rest)"
  by (rule read_fixed_fixed) (simp_all add: hex_val_digit_char)

lemma expect_same [simp]: "expect xs (xs @ s) = Some s"
  by (induction xs) auto

lemma expect_append [simp]: "expect (xs @ ys) (xs @ s) = expect ys s"
  by (induction xs) auto

lemma group_step:
  "((n div (p * c)) mod a) * c + (n div p) mod c = (n div p) mod (c * a)" for n :: nat
proof -
  have "n div (p * c) = (n div p) div c"
    by (rule div_mult2_eq)
  moreover have "(n div p) mod (c * a) = c * ((n div p) div c mod a) + (n div p) mod c"
    by (rule mod_mult2_eq)
  ultimately show ?thesis
    by (simp add: mult.commute)
qed

lemma read_uuid_str: "read_uuid (uuid_str u @ rest) = Some (u, rest)"
proof -
  define n where "n = unat u"
  have n: "n < 16 ^ 32"
    using unsigned_less [of u, where 'a = nat] by (simp add: n_def)
  have p24: "(16::nat) ^ 24 = 16 ^ 20 * 16 ^ 4" and p20: "(16::nat) ^ 20 = 16 ^ 16 * 16 ^ 4"
    and p16: "(16::nat) ^ 16 = 16 ^ 12 * 16 ^ 4"
    by simp_all
  have a2: "(n div 16 ^ 24) mod 16 ^ 8 * 16 ^ 4 + (n div 16 ^ 20) mod 16 ^ 4
      = (n div 16 ^ 20) mod 16 ^ 12"
    using group_step [of n "16 ^ 20" "16 ^ 4" "16 ^ 8"] by (simp add: p24)
  have a3: "(n div 16 ^ 20) mod 16 ^ 12 * 16 ^ 4 + (n div 16 ^ 16) mod 16 ^ 4
      = (n div 16 ^ 16) mod 16 ^ 16"
    using group_step [of n "16 ^ 16" "16 ^ 4" "16 ^ 12"] by (simp add: p20)
  have a4: "(n div 16 ^ 16) mod 16 ^ 16 * 16 ^ 4 + (n div 16 ^ 12) mod 16 ^ 4
      = (n div 16 ^ 12) mod 16 ^ 20"
    using group_step [of n "16 ^ 12" "16 ^ 4" "16 ^ 16"] by (simp add: p16)
  have a5: "(n div 16 ^ 12) mod 16 ^ 20 * 16 ^ 12 + n mod 16 ^ 12 = n"
    using group_step [of n 1 "16 ^ 12" "16 ^ 20"] n by simp
  have "read_uuid (uuid_str u @ rest) = Some (of_nat n, rest)"
    unfolding read_uuid_def uuid_str_def Let_def n_def [symmetric]
    by (simp only: append_assoc read_fixed_hex bind.bind_lunit prod.case expect_same
        mult_0 add_0 a2 a3 a4 a5)
  then show ?thesis
    by (simp add: n_def)
qed

lemma dec_str_ne: "dec_str n \<noteq> []"
  by (subst dec_str.simps) simp

lemma dec_str_digits: "c \<in> set (dec_str n) \<Longrightarrow> is_digit c"
proof (induction n arbitrary: c rule: dec_str.induct)
  case (1 n)
  show ?case
  proof (cases "n < 10")
    case True
    with "1.prems" show ?thesis
      by (subst (asm) dec_str.simps) (simp add: is_digit_digit_char)
  next
    case False
    with "1.prems" "1.IH" show ?thesis
      by (subst (asm) dec_str.simps) (auto simp: is_digit_digit_char)
  qed
qed

lemma digits_val_snoc:
  "digits_val (ds @ [c]) = digits_val ds * 10 + (case dec_val c of Some d \<Rightarrow> d | None \<Rightarrow> 0)"
  by (simp add: digits_val_def)

lemma digits_val_dec_str: "digits_val (dec_str n) = n"
proof (induction n rule: dec_str.induct)
  case (1 n)
  show ?case
  proof (cases "n < 10")
    case True
    then show ?thesis
      by (subst dec_str.simps) (simp add: digits_val_def dec_val_digit_char)
  next
    case False
    with "1.IH" show ?thesis
      by (subst dec_str.simps) (simp add: digits_val_snoc dec_val_digit_char)
  qed
qed

lemma dec_str_leading: "0 < n \<Longrightarrow> hd (dec_str n) \<noteq> CHR ''0''"
proof (induction n rule: dec_str.induct)
  case (1 n)
  show ?case
  proof (cases "n < 10")
    case True
    with "1.prems" show ?thesis
      by (subst dec_str.simps) (simp add: digit_char_eq_zero)
  next
    case False
    then have "0 < n div 10" by simp
    with False "1.IH" show ?thesis
      by (subst dec_str.simps) (simp add: dec_str_ne)
  qed
qed

lemma dec_str_0: "dec_str 0 = ''0''"
  by code_simp

lemma dec_str_no_leading_zero: "\<not> (hd (dec_str n) = CHR ''0'' \<and> length (dec_str n) \<noteq> 1)"
  by (cases "n = 0") (simp_all add: dec_str_0 dec_str_leading)

lemma takeWhile_digits:
  assumes "\<And>x. x \<in> set xs \<Longrightarrow> P x" and "\<not> P c"
  shows "takeWhile P (xs @ c # rest) = xs" and "dropWhile P (xs @ c # rest) = c # rest"
  using assms by (induction xs) auto

lemma read_u64_dec_str:
  assumes "\<not> is_digit c"
  shows "read_u64 (dec_str (unat w) @ c # rest) = Some (w, c # rest)"
proof -
  have lt: "unat w < 2 ^ 64"
    using unsigned_less [of w, where 'a = nat] by simp
  have tw: "takeWhile is_digit (dec_str (unat w) @ c # rest) = dec_str (unat w)"
    and dw: "dropWhile is_digit (dec_str (unat w) @ c # rest) = c # rest"
    using takeWhile_digits [of "dec_str (unat w)" is_digit c rest] assms dec_str_digits
    by blast+
  show ?thesis
    using lt dec_str_no_leading_zero [of "unat w"]
    by (simp add: read_u64_def Let_def tw dw dec_str_ne digits_val_dec_str)
qed

lemma length_fixed: "length (fixed b k n) = k"
  by (induction k) auto

lemma fixed_digits: "c \<in> set (fixed 10 k n) \<Longrightarrow> is_digit c"
  by (induction k) (auto simp: is_digit_digit_char)

lemma read_fixed_zeros:
  "read_fixed dec_val 10 k acc (replicate k (CHR ''0'') @ rest) = Some (acc * 10 ^ k, rest)"
  by (induction k arbitrary: acc) (auto simp: dec_val_zero)

lemma strip_zeros_pad:
  "strip_zeros xs @ replicate (length xs - length (strip_zeros xs)) (CHR ''0'') = xs"
proof -
  let ?P = "\<lambda>c. c = CHR ''0''"
  have tk: "takeWhile ?P (rev xs) = replicate (length (takeWhile ?P (rev xs))) (CHR ''0'')"
    by (rule replicate_length_same [symmetric]) (auto dest: set_takeWhileD)
  have len: "length xs = length (takeWhile ?P (rev xs)) + length (dropWhile ?P (rev xs))"
  proof -
    have "length (takeWhile ?P (rev xs) @ dropWhile ?P (rev xs)) = length (rev xs)"
      by (simp only: takeWhile_dropWhile_id)
    then show ?thesis by (simp only: length_append length_rev)
  qed
  have "rev xs = takeWhile ?P (rev xs) @ dropWhile ?P (rev xs)"
    by simp
  then have "xs = rev (dropWhile ?P (rev xs)) @ rev (takeWhile ?P (rev xs))"
    by (metis rev_append rev_rev_ident)
  also have "rev (takeWhile ?P (rev xs)) = replicate (length (takeWhile ?P (rev xs))) (CHR ''0'')"
    using tk by (metis rev_replicate)
  finally show ?thesis
    using len by (simp add: strip_zeros_def)
qed

lemma strip_zeros_subset: "c \<in> set (strip_zeros xs) \<Longrightarrow> c \<in> set xs"
  by (auto simp: strip_zeros_def dest: set_dropWhileD)

lemma length_strip_zeros: "length (strip_zeros xs) \<le> length xs"
  by (simp add: strip_zeros_def length_dropWhile_le [of _ "rev xs", simplified])

lemma last_strip_zeros: "strip_zeros xs \<noteq> [] \<Longrightarrow> last (strip_zeros xs) \<noteq> CHR ''0''"
  using hd_dropWhile [of "\<lambda>c. c = CHR ''0''" "rev xs"]
  by (simp add: strip_zeros_def last_rev)

lemma strip_fixed_ne:
  assumes "0 < ns" "ns < 10 ^ 9"
  shows "strip_zeros (fixed 10 9 ns) \<noteq> []"
proof
  assume e: "strip_zeros (fixed 10 9 ns) = []"
  have "fixed 10 9 ns = replicate 9 (CHR ''0'')"
    using strip_zeros_pad [of "fixed 10 9 ns"] by (simp add: e length_fixed)
  then have "read_fixed dec_val 10 9 0 (fixed 10 9 ns @ []) = Some (0, [])"
    using read_fixed_zeros [of 9 0 "[]"] by simp
  then show False
    using assms by (simp only: read_fixed_dec) simp
qed

lemma not_digit_Z: "\<not> is_digit (CHR ''Z'')"
  by (simp add: is_digit_def dec_val_def)

lemma not_digit_comma: "\<not> is_digit (CHR '','')"
  by (simp add: is_digit_def dec_val_def)

lemma not_digit_brace: "\<not> is_digit (CHR ''}'')"
  by (simp add: is_digit_def dec_val_def)

lemma read_frac_str:
  assumes "ns < 10 ^ 9"
  shows "read_frac (frac_str ns @ CHR ''Z'' # rest) = Some (ns, CHR ''Z'' # rest)"
proof (cases "ns = 0")
  case True
  then show ?thesis
    by (simp add: read_frac_def frac_str_def)
next
  case False
  let ?ds = "strip_zeros (fixed 10 9 ns)"
  have dig: "\<And>x. x \<in> set ?ds \<Longrightarrow> is_digit x"
    using strip_zeros_subset fixed_digits by blast
  have tw: "takeWhile is_digit (?ds @ CHR ''Z'' # rest) = ?ds"
    and dw: "dropWhile is_digit (?ds @ CHR ''Z'' # rest) = CHR ''Z'' # rest"
    using takeWhile_digits [of ?ds is_digit "CHR ''Z''" rest] dig not_digit_Z by blast+
  have ne: "?ds \<noteq> []"
    using strip_fixed_ne [of ns] False assms by simp
  have len: "length ?ds \<le> 9"
    using length_strip_zeros [of "fixed 10 9 ns"] by (simp add: length_fixed)
  have pad: "?ds @ replicate (9 - length ?ds) (CHR ''0'') = fixed 10 9 ns"
    using strip_zeros_pad [of "fixed 10 9 ns"] by (simp add: length_fixed)
  have rd: "read_fixed dec_val 10 9 0 (fixed 10 9 ns) = Some (ns, [])"
    using read_fixed_dec [of 9 0 ns "[]"] assms by simp
  show ?thesis
    using False ne len last_strip_zeros [OF ne]
    by (simp add: read_frac_def frac_str_def Let_def tw dw pad rd)
qed

lemma read_time_str:
  assumes "wf_time t" "Year t \<le> 9999"
  shows "read_time (time_str t @ rest) = Some (t, rest)"
proof -
  have y: "Year t mod 10 ^ 4 = Year t" and mo: "Month t mod 10 ^ 2 = Month t"
    and d: "Day t mod 10 ^ 2 = Day t" and h: "Hour t mod 10 ^ 2 = Hour t"
    and mi: "Minute t mod 10 ^ 2 = Minute t" and s: "Second t mod 10 ^ 2 = Second t"
    and ns: "Nanosecond t < 10 ^ 9"
    using assms by (simp_all add: wf_time_def)
  have fr: "read_frac (frac_str (Nanosecond t) @ ''Z'' @ rest) = Some (Nanosecond t, ''Z'' @ rest)"
    using read_frac_str [OF ns, of rest] by simp
  have "read_time (time_str t @ rest) =
    (let t' = \<lparr>Year = Year t, Month = Month t, Day = Day t, Hour = Hour t, Minute = Minute t,
       Second = Second t, Nanosecond = Nanosecond t\<rparr> in if wf_time t' then Some (t', rest) else None)"
    unfolding read_time_def time_str_def
    by (simp only: append_assoc read_fixed_dec bind.bind_lunit prod.case expect_same
        mult_0 add_0 y mo d h mi s fr)
  moreover have "\<lparr>Year = Year t, Month = Month t, Day = Day t, Hour = Hour t,
      Minute = Minute t, Second = Second t, Nanosecond = Nanosecond t\<rparr> = t"
    by (cases t) simp
  ultimately show ?thesis
    using assms by (simp add: Let_def)
qed

lemma read_item_str: "read_item (item_str it @ rest) = Some (it, rest)"
proof -
  have "\<lparr>ItemID = ItemID it, Quantity = Quantity it\<rparr> = it"
    by (cases it) simp
  then show ?thesis
    by (simp add: read_item_def item_str_def read_uuid_str read_u64_dec_str not_digit_brace)
qed

lemma item_str_head: "\<exists>t. item_str it = CHR ''{'' # t"
  by (simp add: item_str_def)

lemma items_body_head: "its \<noteq> [] \<Longrightarrow> \<exists>t. items_body its = CHR ''{'' # t"
  using item_str_head by (induction its rule: items_body.induct) (auto, metis append_Cons)

lemma length_items_body: "length its \<le> length (items_body its)"
proof (induction its rule: items_body.induct)
  case (2 it)
  show ?case using item_str_head [of it] by auto
next
  case (3 it it' its)
  then show ?case using item_str_head [of it] by auto
qed simp

lemma read_items_body_str:
  "its \<noteq> [] \<Longrightarrow> length its \<le> n \<Longrightarrow>
   read_items_body n (items_body its @ CHR '']'' # rest) = Some (its, rest)"
proof (induction its arbitrary: n rule: items_body.induct)
  case 1
  then show ?case by simp
next
  case (2 it)
  then obtain m where "n = Suc m" by (cases n) auto
  then show ?case by (simp add: read_item_str)
next
  case (3 it it' its)
  then obtain m where n: "n = Suc m" and m: "length (it' # its) \<le> m" by (cases n) auto
  show ?case
    using "3.IH" [OF _ m] by (simp add: n read_item_str)
qed

lemma read_items_str: "read_items (items_str its @ rest) = Some (its, rest)"
proof (cases "its = []")
  case True
  then show ?thesis by (simp add: read_items_def items_str_def)
next
  case False
  then obtain t where t: "items_body its = CHR ''{'' # t"
    using items_body_head by blast
  have len: "length its \<le> length (items_body its @ CHR '']'' # rest)"
    using length_items_body [of its] by simp
  have "expect '']'' (items_body its @ CHR '']'' # rest) = None"
    by (simp add: t)
  then show ?thesis
    using read_items_body_str [OF False len, of rest]
    by (simp add: read_items_def items_str_def)
qed

lemma read_created_str:
  assumes "case ct of None \<Rightarrow> True | Some t \<Rightarrow> wf_time t \<and> Year t \<le> 9999"
  shows "read_created (created_str ct @ rest) = Some (ct, rest)"
proof (cases ct)
  case None
  then show ?thesis by (simp add: read_created_def created_str_def)
next
  case (Some t)
  have "expect ''null'' (dq # time_str t @ dq # rest) = None"
    by (simp add: dq_def)
  then show ?thesis
    using assms Some by (simp add: read_created_def created_str_def read_time_str)
qed

lemma read_order_str:
  assumes "valid_order order"
  shows "read_order (order_str order) = Some (order, [])"
proof -
  have c: "case CreatedAt order of None \<Rightarrow> True | Some t \<Rightarrow> wf_time t \<and> Year t \<le> 9999"
    using assms by (simp add: valid_order_def)
  have "\<lparr>OrderID = OrderID order, CustomerID = CustomerID order, LineItems = LineItems order,
      CreatedAt = CreatedAt order\<rparr> = order"
    by (cases order) simp
  then show ?thesis
    by (simp add: read_order_def order_str_def read_u64_dec_str not_digit_comma read_uuid_str
        read_items_str read_created_str [OF c])
qed

lemma Unmarshal_order_str: "valid_order order \<Longrightarrow> json_Unmarshal (order_str order) = Inr order"
  by (simp add: json_Unmarshal_def read_order_str)

lemma Marshal_valid: "valid_order order \<Longrightarrow> json_Marshal order = Inr (order_str order)"
  by (auto simp: json_Marshal_def valid_order_def split: option.splits)

lemma Marshal_Inr:
  "json_Marshal order = Inr data \<Longrightarrow> wf_order order \<Longrightarrow> data = order_str order \<and> valid_order order"
  by (auto simp: json_Marshal_def valid_order_def wf_order_def split: option.splits if_splits)

text \<open>
  C8. For every valid Order \<open>o\<close> (one whose timestamp, if any, is a calendar instant with
  a year of at most four digits), encoding succeeds and decoding the encoding gives \<open>o\<close>
  back: \<^verbatim>\<open>Decode(Encode(o)) == o\<close>, for the serialization \<^verbatim>\<open>Insert\<close> and \<^verbatim>\<open>Update\<close>
  write and the deserialization \<^verbatim>\<open>FindByID\<close> and \<^verbatim>\<open>FindAll\<close> read with.
\<close>

theorem Unmarshal_Marshal_roundtrip:
  "valid_order order \<Longrightarrow>
     \<exists>data. json_Marshal order = Inr data \<and> json_Unmarshal data = Inr order"
  by (simp add: Marshal_valid Unmarshal_order_str)

theorem Unmarshal_Marshal_roundtrip_witness:
  "valid_order sample_order \<and> json_Marshal sample_order = Inr (order_str sample_order) \<and>
   json_Unmarshal (order_str sample_order) = Inr sample_order"
proof -
  have v: "valid_order sample_order"
    by (simp add: valid_order_def sample_order_def wf_time_def)
  have m: "json_Marshal sample_order = Inr (order_str sample_order)"
    by (rule Marshal_valid [OF v])
  show ?thesis
    using Unmarshal_Marshal_roundtrip [OF v] v m by auto
qed

subsection \<open>Keys and slots\<close>

lemma OrderIdKey_not_orders: "OrderIdKey oid \<noteq> ''orders''"
  by (simp add: OrderIdKey_def)

lemma OrderIdKey_1: "OrderIdKey 1 = ''order:1''"
  by code_simp

lemma OrderIdKey_3: "OrderIdKey 3 = ''order:3''"
  by code_simp

lemma OrderID_plain_order: "OrderID (plain_order oid) = oid"
  by (simp add: plain_order_def)

lemma Marshal_plain_order: "json_Marshal (plain_order oid) = Inr (order_str (plain_order oid))"
  by (simp add: json_Marshal_def plain_order_def)

lemma set_members: "set (members xs) = {m. Some m \<in> set xs}"
  by (induction xs) (auto simp: members_def split: option.splits)

lemma set_slot_insert: "set (slot_insert m xs) \<subseteq> insert (Some m) (set xs)"
  by (induction m xs rule: slot_insert.induct) auto

lemma slot_insert_mem: "Some m \<in> set (slot_insert m xs)"
  by (induction m xs rule: slot_insert.induct) auto

lemma slot_insert_keeps: "Some k \<in> set xs \<Longrightarrow> Some k \<in> set (slot_insert m xs)"
  by (induction m xs rule: slot_insert.induct) auto

lemma set_members_slot_insert:
  "set (members (slot_insert m xs)) = insert m (set (members xs))"
  using set_slot_insert [of m xs] slot_insert_mem [of m xs] slot_insert_keeps [of _ xs m]
  by (auto simp: set_members)

lemma set_members_slot_remove:
  "set (members (slot_remove m xs)) = set (members xs) - {m}"
  by (auto simp: set_members slot_remove_def)

lemma OrderIdKey_2: "OrderIdKey 2 = ''order:2''"
  by code_simp

lemma valid_plain_order: "valid_order (plain_order oid)"
  by (simp add: valid_order_def plain_order_def)

lemma wf_plain_order: "wf_order (plain_order oid)"
  by (simp add: wf_order_def plain_order_def)

lemma Insert_up:
  "Insert net_up s (plain_order oid) =
     (let s1 = snd (SetNX False s (OrderIdKey oid) (order_str (plain_order oid)))
      in case SAdd False s1 ''orders'' (OrderIdKey oid) of
           (Inl err, s2) \<Rightarrow> (Some (Errorf ''failed to add redis orderid set'' (RedisErr err)), s2)
         | (Inr n, s2) \<Rightarrow> (None, s2))"
  by (auto simp: Insert_def Marshal_plain_order OrderID_plain_order net_up_def Let_def SetNX_def
      Exec_def TxPipeline_def split: option.splits sum.splits prod.splits)

subsection \<open>FindByID\<close>

text \<open>
  C9. For every id and database, \<^verbatim>\<open>FindByID\<close> leaves the database as it was; and when
  its round trip reaches the server it fails with \<^verbatim>\<open>ErrNotExits\<close> exactly when the
  key \<^verbatim>\<open>order:<id>\<close> is absent, and returns the decoded order when the key holds a
  string that decodes.
\<close>

theorem FindByID_spec:
  "snd (FindByID net s oid) = s \<and>
   (\<not> net 0 \<longrightarrow>
     (fst (FindByID net s oid) = Inl ErrNotExits \<longleftrightarrow> s (OrderIdKey oid) = None) \<and>
     (\<forall>v order. s (OrderIdKey oid) = Some (RString v) \<and> json_Unmarshal v = Inr order \<longrightarrow>
        fst (FindByID net s oid) = Inr order))"
  by (auto simp: FindByID_def Get_def Let_def split: option.splits rval.splits sum.splits)

theorem FindByID_spec_witness:
  "snd (FindByID net_up one_db 1) = one_db \<and>
   fst (FindByID net_up one_db 1) = Inr (plain_order 1) \<and>
   fst (FindByID net_up empty_db 1) = Inl ErrNotExits"
proof -
  have up: "\<not> net_up 0"
    by (simp add: net_up_def)
  have k: "one_db (OrderIdKey 1) = Some (RString (order_str (plain_order 1)))"
    by (simp add: one_db_def OrderIdKey_1)
  have u: "json_Unmarshal (order_str (plain_order 1)) = Inr (plain_order 1)"
    by (rule Unmarshal_order_str [OF valid_plain_order])
  have e: "empty_db (OrderIdKey 1) = None"
    by (simp add: empty_db_def)
  show ?thesis
    using FindByID_spec [of net_up one_db 1] FindByID_spec [of net_up empty_db 1] up k u e
    by simp
qed

subsection \<open>Insert on an existing key\<close>

text \<open>
  \<^verbatim>\<open>Insert\<close> issues the conditional write \<^verbatim>\<open>SetNX\<close> and reads only its error, never
  the boolean that says whether the write applied. So the part of the uniqueness
  property that the conditional write gives by itself holds: for every database in which
  a primary record exists for the order's key, whatever the network does, the value
  stored at that key is the same after \<^verbatim>\<open>Insert\<close>.
\<close>

lemma Insert_keeps_existing_value:
  assumes "s (OrderIdKey (OrderID order)) = Some x"
  shows "snd (Insert net s order) (OrderIdKey (OrderID order)) = Some x"
proof (cases "json_Marshal order")
  case (Inl err)
  then show ?thesis using assms by (simp add: Insert_def)
next
  case (Inr data)
  have ne: "OrderIdKey (OrderID order) \<noteq> ''orders''"
    by (rule OrderIdKey_not_orders)
  show ?thesis using assms Inr ne
    by (auto simp: Let_def Insert_def SetNX_def SAdd_def Exec_def TxPipeline_def Discard_def
        split: option.splits rval.splits sum.splits prod.splits if_splits)
qed

text \<open>The other part fails, and not only at one input: \<^verbatim>\<open>Insert\<close> never returns the
  sentinel error, and on an existing key it returns nil whenever the order encodes, its
  two round trips reach the server and \<^verbatim>\<open>orders\<close> holds no string.\<close>

lemma Insert_never_ErrNotExits: "fst (Insert net s order) \<noteq> Some ErrNotExits"
  by (auto simp: Let_def Insert_def SetNX_def SAdd_def Exec_def TxPipeline_def Discard_def
      split: option.splits rval.splits sum.splits prod.splits if_splits)

lemma Insert_existing_key_nil:
  assumes "s (OrderIdKey (OrderID order)) = Some x" and "json_Marshal order = Inr data"
    and "\<not> net 0" and "\<not> net 1" and "\<And>v. s ''orders'' \<noteq> Some (RString v)"
  shows "fst (Insert net s order) = None"
  using assms
  by (auto simp: Let_def Insert_def SetNX_def SAdd_def Exec_def TxPipeline_def
      split: option.splits rval.splits sum.splits prod.splits if_splits)

text \<open>
  C1 at a failing input. The database holds a record at \<^verbatim>\<open>order:1\<close>. \<^verbatim>\<open>SetNX\<close>
  answers \<^verbatim>\<open>false\<close> with no error, \<^verbatim>\<open>Insert\<close> goes on to \<^verbatim>\<open>SAdd\<close> and to
  \<^verbatim>\<open>Exec\<close>, and returns nil: the insertion of order 1 reports success instead of
  failing, the caller's order is not stored, and the key of the old record is put into
  the index. The stored value is unchanged, as the claim says.
\<close>

theorem Insert_existing_key_returns_nil:
  "stale_db (OrderIdKey (OrderID (plain_order 1))) = Some (RString ''stale'') \<and>
   fst (Insert net_up stale_db (plain_order 1)) = None \<and>
   snd (Insert net_up stale_db (plain_order 1)) ''order:1'' = Some (RString ''stale'') \<and>
   index (snd (Insert net_up stale_db (plain_order 1))) = [''order:1'']"
  by (simp add: Let_def Insert_def SetNX_def SAdd_def Exec_def TxPipeline_def
      Marshal_plain_order stale_db_def net_up_def OrderID_plain_order OrderIdKey_1
      index_def members_def)

subsection \<open>Update and delete of an absent key\<close>

text \<open>Neither operation ever returns \<^verbatim>\<open>ErrNotExits\<close>: the commands they issue never
  answer nil. On an absent key both succeed when the server is reached.\<close>

lemma Exec_TxPipeline: "Exec down s TxPipeline = (None, s)"
  by (simp add: Exec_def TxPipeline_def)

lemma Update_never_ErrNotExits: "fst (Update net s order) \<noteq> Some ErrNotExits"
  by (auto simp: Update_def SetXX_def Let_def split: sum.splits option.splits if_splits)

lemma Update_absent_key:
  assumes "s (OrderIdKey (OrderID order)) = None"
  shows "snd (Update net s order) = s"
    and "\<not> net 0 \<Longrightarrow> json_Marshal order = Inr data \<Longrightarrow> fst (Update net s order) = None"
  using assms by (auto simp: Update_def SetXX_def Let_def split: sum.splits)

lemma DeleteByID_never_ErrNotExits: "fst (DeleteByID net s oid) \<noteq> Some ErrNotExits"
  by (auto simp: DeleteByID_def Del_def SRem_def Exec_def TxPipeline_def Let_def
      split: sum.splits option.splits if_splits rval.splits prod.splits)

lemma DeleteByID_absent_key:
  assumes "s (OrderIdKey oid) = None" "\<not> net 0" "\<not> net 1"
    and "\<And>v. s ''orders'' \<noteq> Some (RString v)"
  shows "fst (DeleteByID net s oid) = None"
  using assms
  by (auto simp: DeleteByID_def Del_def SRem_def Exec_def TxPipeline_def Let_def
      split: sum.splits option.splits if_splits rval.splits prod.splits)

text \<open>
  C2 at a failing input. \<^verbatim>\<open>Update\<close> tests the error of \<^verbatim>\<open>SetXX\<close> against
  \<^verbatim>\<open>redis.Nil\<close>, which \<^verbatim>\<open>SetXX\<close> never returns: on the empty database the update of
  order 1 returns nil, not \<^verbatim>\<open>ErrNotExits\<close>. The database is left as it was.
\<close>

theorem Update_absent_key_returns_nil:
  "empty_db (OrderIdKey (OrderID (plain_order 1))) = None \<and>
   Update net_up empty_db (plain_order 1) = (None, empty_db)"
  by (simp add: Let_def Update_def SetXX_def Marshal_plain_order empty_db_def net_up_def)

text \<open>
  C3 at a failing input. \<^verbatim>\<open>DeleteByID\<close> tests the error of \<^verbatim>\<open>Del\<close> against
  \<^verbatim>\<open>redis.Nil\<close>, which \<^verbatim>\<open>Del\<close> never returns: on the empty database the deletion of
  order 1 returns nil, not \<^verbatim>\<open>ErrNotExits\<close>.
\<close>

theorem DeleteByID_absent_key_returns_nil:
  "empty_db (OrderIdKey 1) = None \<and> DeleteByID net_up empty_db 1 = (None, empty_db)"
  by (simp add: Let_def DeleteByID_def Del_def SRem_def Exec_def TxPipeline_def
      empty_db_def net_up_def)

text \<open>On an absent key whose index entry is left over, the deletion also returns nil,
  and removes the entry.\<close>

lemma DeleteByID_absent_key_removes_entry:
  "dangling_db (OrderIdKey 1) = None \<and> DeleteByID net_up dangling_db 1 = (None, empty_db)"
  by (simp add: Let_def DeleteByID_def Del_def SRem_def Exec_def TxPipeline_def
      dangling_db_def empty_db_def net_up_def OrderIdKey_1 members_def slot_remove_def)

subsection \<open>A page of FindAll\<close>

lemma decode_all_ok:
  assumes "\<forall>x \<in> set xs. \<exists>v order. x = Some v \<and> json_Unmarshal v = Inr order"
  shows "\<exists>orders. decode_all xs = Returns (Inr orders) \<and> length orders = length xs \<and>
     (\<forall>i < length xs. \<exists>v. xs ! i = Some v \<and> json_Unmarshal v = Inr (orders ! i))"
  using assms
proof (induction xs)
  case Nil
  show ?case by simp
next
  case (Cons x xs)
  then obtain v order where x: "x = Some v" "json_Unmarshal v = Inr order"
    by auto
  from Cons obtain orders where o: "decode_all xs = Returns (Inr orders)"
    "length orders = length xs"
    "\<forall>i < length xs. \<exists>v. xs ! i = Some v \<and> json_Unmarshal v = Inr (orders ! i)"
    by auto
  have "\<forall>i < length (x # xs). \<exists>v. (x # xs) ! i = Some v \<and> json_Unmarshal v = Inr ((order # orders) ! i)"
    using x o(3) by (auto simp: nth_Cons split: nat.splits)
  then show ?case
    using x o(1,2) by simp
qed

text \<open>
  C10. Whenever the scan step of \<^verbatim>\<open>FindAll\<close> returns a non-empty list of keys and a
  cursor, the multi-get succeeds and every value it returns decodes, \<^verbatim>\<open>FindAll\<close>
  returns a result with one order per scanned key, in the same order (the \<open>i\<close>-th order
  is decoded from the value stored at the \<open>i\<close>-th key) and with the scan's cursor.
\<close>

theorem FindAll_page:
  assumes sc: "fst (SScan (net 0) s ''orders'' (Offset page) (Size page)) = Inr (keys, cursor)"
    and ne: "keys \<noteq> []"
    and mg: "fst (MGet (net 1) s keys) = Inr xs"
    and dec: "\<forall>x \<in> set xs. \<exists>v order. x = Some v \<and> json_Unmarshal v = Inr order"
  shows "\<exists>orders. FindAll net s page = (Returns (Inr \<lparr>Orders = orders, Cursor = cursor\<rparr>), s) \<and>
     length orders = length keys \<and>
     (\<forall>i < length keys. \<exists>v. s (keys ! i) = Some (RString v) \<and>
        json_Unmarshal v = Inr (orders ! i))"
proof -
  have sc': "SScan (net 0) s ''orders'' (Offset page) (Size page) = (Inr (keys, cursor), s)"
    using sc by (auto simp: SScan_def Let_def split: if_splits option.splits rval.splits)
  have xs: "xs = map (\<lambda>k. case s k of Some (RString v) \<Rightarrow> Some v | _ \<Rightarrow> None) keys"
    and mg': "MGet (net 1) s keys = (Inr xs, s)"
    using mg by (auto simp: MGet_def split: if_splits)
  obtain orders where o: "decode_all xs = Returns (Inr orders)" "length orders = length xs"
    "\<forall>i < length xs. \<exists>v. xs ! i = Some v \<and> json_Unmarshal v = Inr (orders ! i)"
    using decode_all_ok [OF dec] by blast
  have len: "length xs = length keys"
    by (simp add: xs)
  have "\<exists>v. s (keys ! i) = Some (RString v) \<and> json_Unmarshal v = Inr (orders ! i)"
    if i: "i < length keys" for i
  proof -
    obtain v where v: "xs ! i = Some v" "json_Unmarshal v = Inr (orders ! i)"
      using o(3) i len by auto
    have "xs ! i = (case s (keys ! i) of Some (RString v) \<Rightarrow> Some v | _ \<Rightarrow> None)"
      using i by (simp add: xs)
    then have "s (keys ! i) = Some (RString v)"
      using v(1) by (auto split: option.splits rval.splits)
    then show ?thesis
      using v(2) by blast
  qed
  moreover have "FindAll net s page = (Returns (Inr \<lparr>Orders = orders, Cursor = cursor\<rparr>), s)"
    using ne mg' o(1) by (simp add: FindAll_def sc')
  ultimately show ?thesis
    using o(2) len by auto
qed

theorem FindAll_page_witness:
  "fst (SScan (net_up 0) one_db ''orders'' 0 10) = Inr ([''order:1''], 0) \<and>
   fst (MGet (net_up 1) one_db [''order:1'']) = Inr [Some (order_str (plain_order 1))] \<and>
   FindAll net_up one_db \<lparr>Size = 10, Offset = 0\<rparr>
     = (Returns (Inr \<lparr>Orders = [plain_order 1], Cursor = 0\<rparr>), one_db)"
proof -
  have sc: "fst (SScan (net_up 0) one_db ''orders'' (Offset \<lparr>Size = 10, Offset = 0\<rparr>)
      (Size \<lparr>Size = 10, Offset = 0\<rparr>)) = Inr ([''order:1''], 0)"
    by (simp add: SScan_def scan_count_def one_db_def net_up_def members_def Let_def)
  have ne: "[''order:1''] \<noteq> []"
    by simp
  have mg: "fst (MGet (net_up 1) one_db [''order:1'']) = Inr [Some (order_str (plain_order 1))]"
    by (simp add: MGet_def one_db_def net_up_def)
  have u: "json_Unmarshal (order_str (plain_order 1)) = Inr (plain_order 1)"
    by (rule Unmarshal_order_str [OF valid_plain_order])
  have dec: "\<forall>x \<in> set [Some (order_str (plain_order 1))].
      \<exists>v order. x = Some v \<and> json_Unmarshal v = Inr order"
    using u by simp
  obtain orders where o: "FindAll net_up one_db \<lparr>Size = 10, Offset = 0\<rparr>
        = (Returns (Inr \<lparr>Orders = orders, Cursor = 0\<rparr>), one_db)"
      "length orders = length [''order:1'']"
      "\<forall>i < length [''order:1'']. \<exists>v. one_db ([''order:1''] ! i) = Some (RString v) \<and>
         json_Unmarshal v = Inr (orders ! i)"
    using FindAll_page [OF sc ne mg dec] by blast
  obtain a where a: "orders = [a]"
    using o(2) by (cases orders) auto
  have "a = plain_order 1"
    using o(3) u by (simp add: a one_db_def)
  then show ?thesis
    using sc mg o(1) a by simp
qed

subsection \<open>FindAll on a dangling index entry\<close>

text \<open>A value that does not decode ends the loop with an error; a nil value ends it
  with a panic.\<close>

lemma decode_all_invalid:
  "json_Unmarshal v = Inl err \<Longrightarrow>
   decode_all (Some v # xs) = Returns (Inl (Errorf ''error decoding order'' (JsonErr err)))"
  by simp

lemma decode_all_nil: "decode_all (None # xs) = Panics"
  by simp

text \<open>
  C5 at a failing input. The index holds \<^verbatim>\<open>order:1\<close> and there is no such record:
  the multi-get answers nil for it and the type assertion \<^verbatim>\<open>x.(string)\<close> panics, so
  \<^verbatim>\<open>FindAll\<close> returns no error value.
\<close>

theorem FindAll_dangling_key_panics:
  "dangling_db ''order:1'' = None \<and> index dangling_db = [''order:1''] \<and>
   FindAll net_up dangling_db \<lparr>Size = 10, Offset = 0\<rparr> = (Panics, dangling_db)"
  by (simp add: Let_def FindAll_def SScan_def MGet_def scan_count_def dangling_db_def
      net_up_def index_def members_def)

text \<open>Such a database is what a deletion leaves when its second round trip fails.\<close>

lemma dangling_db_reached:
  "snd (DeleteByID net_sadd_down (snd (Insert net_up Map.empty (plain_order 1))) 1) = dangling_db"
  by (simp add: Insert_up OrderIdKey_1 SetNX_def SAdd_def Let_def DeleteByID_def Del_def SRem_def
      net_sadd_down_def dangling_db_def)

subsection \<open>The two mutations of Insert are not one commit\<close>

text \<open>
  C7 at a failing input. \<^verbatim>\<open>SetNX\<close> and \<^verbatim>\<open>SAdd\<close> are issued on the client, not
  on the pipeline, so each takes effect at its own round trip and the pipeline that
  \<^verbatim>\<open>Exec\<close> commits is empty. When the second round trip fails, \<^verbatim>\<open>Insert\<close> returns an
  error and leaves the primary record of order 1 written with no index entry.
\<close>

theorem Insert_partial_write_before_commit:
  "fst (Insert net_sadd_down empty_db (plain_order 1))
     = Some (Errorf ''failed to add redis orderid set'' (RedisErr ConnError)) \<and>
   snd (Insert net_sadd_down empty_db (plain_order 1)) ''order:1''
     = Some (RString (order_str (plain_order 1))) \<and>
   index (snd (Insert net_sadd_down empty_db (plain_order 1))) = []"
  by (simp add: Let_def Insert_def SetNX_def SAdd_def Exec_def TxPipeline_def
      Marshal_plain_order empty_db_def net_sadd_down_def OrderID_plain_order OrderIdKey_1
      index_def)

subsection \<open>An empty page ends the caller's scan\<close>

text \<open>
  C4 at a failing input. The index table has two free slots before \<^verbatim>\<open>order:3\<close> (the
  database after orders 1, 2 and 3 were inserted and 1 and 2 deleted, see
  \<open>run_history1\<close> below). With page size 2 the first scan step returns no key and the
  cursor 2, as a scan step may; \<^verbatim>\<open>FindAll\<close> returns the empty page with cursor 0, the
  zero value of the field its early return leaves out, so the caller's scan ends with no
  order although order 3 is in the index.
\<close>

theorem FindAll_empty_page_ends_scan:
  "index sparse_db = [''order:3''] \<and>
   fst (SScan (net_up 0) sparse_db ''orders'' 0 2) = Inr ([], 2) \<and>
   fst (FindAll net_up sparse_db \<lparr>Size = 2, Offset = 0\<rparr>)
     = Returns (Inr \<lparr>Orders = [], Cursor = 0\<rparr>) \<and>
   scan_all 5 net_up sparse_db 2 0 = Some (Returns (Inr []))"
proof -
  have ix: "index sparse_db = [''order:3'']"
    by (simp add: index_def sparse_db_def members_def)
  have sc: "SScan False sparse_db ''orders'' 0 2 = (Inr ([], 2), sparse_db)"
    by (simp add: Let_def SScan_def scan_count_def sparse_db_def members_def)
  have fa: "FindAll net_up sparse_db \<lparr>Size = 2, Offset = 0\<rparr>
      = (Returns (Inr \<lparr>Orders = [], Cursor = 0\<rparr>), sparse_db)"
    by (simp add: FindAll_def net_up_def sc)
  have "scan_all (Suc n) net_up sparse_db 2 0 = Some (Returns (Inr []))" for n
    by (simp add: fa)
  from this [of 4] have "scan_all 5 net_up sparse_db 2 0 = Some (Returns (Inr []))"
    by simp
  then show ?thesis
    using ix sc fa by (simp add: net_up_def)
qed

subsection \<open>Invariant I1 along successful operations\<close>

lemma store_okI:
  assumes "\<And>k. k \<noteq> ''orders'' \<Longrightarrow> s k \<noteq> None \<Longrightarrow> valid_record s k"
    and "\<And>v. s ''orders'' \<noteq> Some (RString v)"
    and "\<And>k. k \<in> set (index s) \<Longrightarrow> k \<noteq> ''orders'' \<and> s k \<noteq> None"
  shows "store_ok s"
  using assms unfolding store_ok_def by blast

lemma store_ok_valid: "store_ok s \<Longrightarrow> k \<noteq> ''orders'' \<Longrightarrow> s k \<noteq> None \<Longrightarrow> valid_record s k"
  unfolding store_ok_def by blast

lemma store_ok_orders: "store_ok s \<Longrightarrow> s ''orders'' \<noteq> Some (RString v)"
  unfolding store_ok_def by blast

lemma store_ok_index: "store_ok s \<Longrightarrow> k \<in> set (index s) \<Longrightarrow> k \<noteq> ''orders'' \<and> s k \<noteq> None"
  unfolding store_ok_def by blast

lemma store_ok_I1: "store_ok s \<Longrightarrow> I1 s"
  unfolding I1_def using store_ok_index store_ok_valid by blast

lemma store_ok_empty: "store_ok Map.empty"
  by (simp add: store_ok_def index_def)

lemma valid_record_cong: "s2 k = s k \<Longrightarrow> valid_record s2 k = valid_record s k"
  by (simp add: valid_record_def)

lemma valid_record_order_str:
  "valid_order order \<Longrightarrow> s k = Some (RString (order_str order)) \<Longrightarrow> valid_record s k"
  by (simp add: valid_record_def Unmarshal_order_str)

lemma index_cong: "s2 ''orders'' = s ''orders'' \<Longrightarrow> index s2 = index s"
  by (simp add: index_def)

lemma members_single: "members [Some k] = [k]"
  by (simp add: members_def)

lemma members_slot_remove_Nil:
  "members (slot_remove k xs) = [] \<Longrightarrow> set (members xs) - {k} = {}"
  using set_members_slot_remove [of k xs] by simp

lemma SAdd_effect:
  assumes "SAdd down s ''orders'' k = (Inr n, s2)"
  shows "set (index s2) = insert k (set (index s))"
    and "\<And>k'. k' \<noteq> ''orders'' \<Longrightarrow> s2 k' = s k'"
    and "\<And>v. s2 ''orders'' \<noteq> Some (RString v)"
  using assms
  by (auto simp: SAdd_def index_def set_members_slot_insert members_single
      split: if_splits option.splits rval.splits)

lemma SRem_effect:
  assumes "SRem down s ''orders'' k = (Inr n, s2)"
  shows "set (index s2) = set (index s) - {k}"
    and "\<And>k'. k' \<noteq> ''orders'' \<Longrightarrow> s2 k' = s k'"
    and "\<And>v. s2 ''orders'' \<noteq> Some (RString v)"
  using assms
  by (auto simp: SRem_def index_def set_members_slot_remove
      dest: members_slot_remove_Nil
      split: if_splits option.splits rval.splits)

lemma SetNX_effect:
  assumes "SetNX down s k v = (Inr b, s1)"
  shows "s1 = s \<and> s k \<noteq> None \<or> s1 = s(k \<mapsto> RString v)"
  using assms by (auto simp: SetNX_def split: if_splits option.splits)

lemma SetXX_effect:
  assumes "SetXX down s k v = (Inr b, s1)"
  shows "s1 = s \<or> s1 = s(k \<mapsto> RString v)"
  using assms by (auto simp: SetXX_def split: if_splits option.splits)

lemma Del_effect:
  assumes "Del down s k = (Inr n, s1)"
  shows "s1 = s(k := None)"
  using assms by (auto simp: Del_def split: if_splits option.splits)

lemma store_ok_write:
  assumes ok: "store_ok s" and v: "valid_order order" and k: "k \<noteq> ''orders''"
  shows "store_ok (s(k \<mapsto> RString (order_str order)))"
proof (rule store_okI)
  fix k'
  assume "k' \<noteq> ''orders''" "(s(k \<mapsto> RString (order_str order))) k' \<noteq> None"
  then show "valid_record (s(k \<mapsto> RString (order_str order))) k'"
    using store_ok_valid [OF ok, of k'] valid_record_order_str [OF v]
      valid_record_cong [of "s(k \<mapsto> RString (order_str order))" k' s]
    by (cases "k' = k") auto
next
  fix w
  show "(s(k \<mapsto> RString (order_str order))) ''orders'' \<noteq> Some (RString w)"
    using store_ok_orders [OF ok] k by simp
next
  fix k'
  assume "k' \<in> set (index (s(k \<mapsto> RString (order_str order))))"
  then have "k' \<in> set (index s)"
    using k by (simp add: index_def)
  then show "k' \<noteq> ''orders'' \<and> (s(k \<mapsto> RString (order_str order))) k' \<noteq> None"
    using store_ok_index [OF ok] by auto
qed

lemma store_ok_SAdd:
  assumes ok: "store_ok s" and k: "k \<noteq> ''orders''" and p: "s k \<noteq> None"
    and e: "SAdd down s ''orders'' k = (Inr n, s2)"
  shows "store_ok s2"
proof (rule store_okI)
  fix k'
  assume "k' \<noteq> ''orders''" "s2 k' \<noteq> None"
  then show "valid_record s2 k'"
    using SAdd_effect(2) [OF e, of k'] store_ok_valid [OF ok, of k']
      valid_record_cong [of s2 k' s] by simp
next
  fix v
  show "s2 ''orders'' \<noteq> Some (RString v)"
    by (rule SAdd_effect(3) [OF e])
next
  fix k'
  assume "k' \<in> set (index s2)"
  then have "k' = k \<or> k' \<in> set (index s)"
    using SAdd_effect(1) [OF e] by auto
  then show "k' \<noteq> ''orders'' \<and> s2 k' \<noteq> None"
    using k p store_ok_index [OF ok, of k'] SAdd_effect(2) [OF e, of k'] by auto
qed

lemma store_ok_Del_SRem:
  assumes ok: "store_ok s" and k: "k \<noteq> ''orders''"
    and e: "SRem down (s(k := None)) ''orders'' k = (Inr n, s2)"
  shows "store_ok s2"
proof (rule store_okI)
  fix k'
  assume a: "k' \<noteq> ''orders''" "s2 k' \<noteq> None"
  then have "s2 k' = (s(k := None)) k'"
    using SRem_effect(2) [OF e] by simp
  then have "k' \<noteq> k \<and> s2 k' = s k'"
    using a by (auto split: if_splits)
  then show "valid_record s2 k'"
    using a store_ok_valid [OF ok, of k'] valid_record_cong [of s2 k' s] by simp
next
  fix v
  show "s2 ''orders'' \<noteq> Some (RString v)"
    by (rule SRem_effect(3) [OF e])
next
  fix k'
  assume "k' \<in> set (index s2)"
  then have m: "k' \<in> set (index s)" and ne: "k' \<noteq> k"
    using SRem_effect(1) [OF e] k by (auto simp: index_def)
  then have "k' \<noteq> ''orders'' \<and> s k' \<noteq> None"
    using store_ok_index [OF ok] by blast
  then show "k' \<noteq> ''orders'' \<and> s2 k' \<noteq> None"
    using ne SRem_effect(2) [OF e, of k'] by simp
qed

lemma Insert_store_ok:
  assumes ok: "store_ok s" and wf: "wf_order order" and e: "Insert net s order = (None, s')"
  shows "store_ok s'"
proof -
  let ?k = "OrderIdKey (OrderID order)"
  have k: "?k \<noteq> ''orders''" by (rule OrderIdKey_not_orders)
  obtain data where m: "json_Marshal order = Inr data"
    using e by (cases "json_Marshal order") (auto simp: Insert_def)
  then have d: "data = order_str order" and v: "valid_order order"
    using Marshal_Inr [OF m wf] by simp_all
  obtain b s1 where nx: "SetNX (net 0) s ?k data = (Inr b, s1)"
    using e m by (cases "SetNX (net 0) s ?k data")
      (auto simp: Insert_def Let_def split: sum.splits)
  obtain n where sa: "SAdd (net 1) s1 ''orders'' ?k = (Inr n, s')"
    using e m nx by (cases "SAdd (net 1) s1 ''orders'' ?k")
      (auto simp: Insert_def Let_def Exec_def TxPipeline_def split: sum.splits)
  have "store_ok s1 \<and> s1 ?k \<noteq> None"
    using SetNX_effect [OF nx] ok store_ok_write [OF ok v k] d by auto
  then show ?thesis
    using store_ok_SAdd [OF _ k _ sa] by blast
qed

lemma Update_store_ok:
  assumes ok: "store_ok s" and wf: "wf_order order" and e: "Update net s order = (None, s')"
  shows "store_ok s'"
proof -
  let ?k = "OrderIdKey (OrderID order)"
  have k: "?k \<noteq> ''orders''" by (rule OrderIdKey_not_orders)
  obtain data where m: "json_Marshal order = Inr data"
    using e by (cases "json_Marshal order") (auto simp: Update_def)
  then have d: "data = order_str order" and v: "valid_order order"
    using Marshal_Inr [OF m wf] by simp_all
  obtain b where xx: "SetXX (net 0) s ?k data = (Inr b, s')"
    using e m by (cases "SetXX (net 0) s ?k data")
      (auto simp: Update_def Let_def split: sum.splits if_splits)
  show ?thesis
    using SetXX_effect [OF xx] ok store_ok_write [OF ok v k] d by auto
qed

lemma DeleteByID_store_ok:
  assumes ok: "store_ok s" and e: "DeleteByID net s oid = (None, s')"
  shows "store_ok s'"
proof -
  let ?k = "OrderIdKey oid"
  have k: "?k \<noteq> ''orders''" by (rule OrderIdKey_not_orders)
  obtain n s1 where dl: "Del (net 0) s ?k = (Inr n, s1)"
    using e by (cases "Del (net 0) s ?k")
      (auto simp: DeleteByID_def Let_def split: sum.splits if_splits)
  then have s1: "s1 = s(?k := None)"
    by (rule Del_effect)
  obtain m where sr: "SRem (net 1) s1 ''orders'' ?k = (Inr m, s')"
    using e dl by (cases "SRem (net 1) s1 ''orders'' ?k")
      (auto simp: DeleteByID_def Let_def Exec_def TxPipeline_def split: sum.splits)
  show ?thesis
    using store_ok_Del_SRem [OF ok k] sr s1 by simp
qed

lemma apply_op_store_ok:
  "store_ok s \<Longrightarrow> op_wf p \<Longrightarrow> apply_op net s p = (None, s') \<Longrightarrow> store_ok s'"
  by (cases p) (auto intro: Insert_store_ok Update_store_ok DeleteByID_store_ok)

lemma run_store_ok:
  "store_ok s \<Longrightarrow> list_all (\<lambda>(net, p). op_wf p) ops \<Longrightarrow> run ops s = Some s' \<Longrightarrow> store_ok s'"
proof (induction ops arbitrary: s)
  case Nil
  then show ?case by simp
next
  case (Cons a ops)
  obtain net p where a: "a = (net, p)" by (cases a)
  obtain r s1 where ap: "apply_op net s p = (r, s1)" by (cases "apply_op net s p")
  with Cons.prems a have r: "r = None" and rest: "run ops s1 = Some s'"
    by (auto split: option.splits)
  have "store_ok s1"
    using apply_op_store_ok [of s p net s1] Cons.prems a ap r by simp
  then show ?case
    using Cons.IH [of s1] Cons.prems a rest by simp
qed

lemma run_history1: "run history1 Map.empty = Some sparse_db"
  by (simp add: history1_def Insert_up OrderIdKey_1 OrderIdKey_2 OrderIdKey_3 SetNX_def
      SAdd_def Let_def members_def Update_def Marshal_plain_order OrderID_plain_order
      SetXX_def net_up_def DeleteByID_def Del_def SRem_def slot_remove_def Exec_def
      TxPipeline_def sparse_db_def)

lemma ops_wf_history1: "ops_wf history1"
  by (simp add: ops_wf_def history1_def wf_plain_order)

text \<open>
  C6. Start from the empty database and run any operations of the repository one after
  the other, each to its end, each on an order that is a value of its Go type, under any
  network in which each of them succeeds. Then I1 holds in the database they leave: every
  key in the set \<^verbatim>\<open>orders\<close> has a primary record that decodes. Every prefix of such a
  history is one, so I1 holds after each of its operations.
\<close>

theorem I1_after_successful_operations:
  "ops_wf ops \<Longrightarrow> run ops Map.empty = Some s \<Longrightarrow> I1 s"
  using run_store_ok [OF store_ok_empty] store_ok_I1 unfolding ops_wf_def by blast

theorem I1_after_successful_operations_witness:
  "ops_wf history1 \<and> run history1 Map.empty = Some sparse_db \<and> I1 sparse_db"
  using I1_after_successful_operations [of history1 sparse_db] ops_wf_history1 run_history1
  by simp

end
